theory Spec2Isabelle
  imports Main
begin

section \<open>The notification channel\<close>

text \<open>
  Modelled from the spec: \<^verbatim>\<open>boost::signals2::signal<void()>\<close>, the channel type every
  class of \<^verbatim>\<open>v.hpp\<close> embeds, is a library type that the repository only uses.
  The spec describes it as an ordered collection of registered callbacks, each
  registration producing its own handle; invoking the channel calls every still-active
  callback once, in registration order, and passes nothing to it.

  A channel is the list of its connected slots, oldest first. A slot is a connection
  number together with the callback; \<open>next_cn\<close> is the number the next registration
  gets, so that handles are never reused. The callbacks are of any type \<open>'f\<close>: the
  classes below never look inside one, they only hand it to the channel.
\<close>

record 'f signal =
  slots :: "(nat \<times> 'f) list"
  next_cn :: nat

definition empty_signal :: "'f signal" where
  "empty_signal = \<lparr>slots = [], next_cn = 0\<rparr>"

text \<open>
  Modelled from the spec: \<^verbatim>\<open>signal_.connect(slot)\<close> of the library appends the slot
  and returns its connection.
\<close>

definition connect :: "'f \<Rightarrow> 'f signal \<Rightarrow> nat \<times> 'f signal" where
  "connect f s =
     (next_cn s, s\<lparr>slots := slots s @ [(next_cn s, f)], next_cn := Suc (next_cn s)\<rparr>)"

text \<open>
  Modelled from the spec: \<^verbatim>\<open>connection::disconnect()\<close> of the library; the slot is no
  longer called, and disconnecting again changes nothing.
\<close>

definition disconnect :: "nat \<Rightarrow> 'f signal \<Rightarrow> 'f signal" where
  "disconnect c s = s\<lparr>slots := filter (\<lambda>e. fst e \<noteq> c) (slots s)\<rparr>"

text \<open>Modelled from the spec: \<^verbatim>\<open>connection::connected()\<close> of the library.\<close>

definition connected :: "nat \<Rightarrow> 'f signal \<Rightarrow> bool" where
  "connected c s = (c \<in> fst ` set (slots s))"

text \<open>
  Modelled from the spec: \<^verbatim>\<open>signal_()\<close> of the library, one firing of the channel. Its value is the sequence of slots the
  firing calls, in calling order. A firing of a channel without slots is the empty
  sequence, which is still a firing: the functions below return the list of firings
  they caused, and \<open>[]\<close> there means that the channel did not fire at all.
\<close>

type_synonym 'f firing = "(nat \<times> 'f) list"

definition signal_call :: "'f signal \<Rightarrow> 'f firing" where
  "signal_call s = slots s"

section \<open>Properties\<close>

text \<open>
  \<^verbatim>\<open>read_only_property<T>\<close> holds \<^verbatim>\<open>T value_\<close> and the channel \<^verbatim>\<open>signal_\<close>.
  \<^verbatim>\<open>T\<close>'s \<^verbatim>\<open>operator==\<close> is HOL equality. Isabelle keeps names that end in an
  underscore for itself, so the members \<^verbatim>\<open>value_\<close>, \<^verbatim>\<open>signal_\<close> and \<^verbatim>\<open>flag_\<close> are
  the fields \<open>prop_value\<close>, \<open>prop_signal\<close> and \<open>prop_flag\<close>; the members of the other
  classes are renamed the same way.
\<close>

record ('a, 'f) read_only_property =
  prop_value :: 'a
  prop_signal :: "'f signal"

text \<open>The constructor \<^verbatim>\<open>read_only_property(T value)\<close>.\<close>

definition read_only_property :: "'a \<Rightarrow> ('a, 'f) read_only_property" where
  "read_only_property v = \<lparr>prop_value = v, prop_signal = empty_signal\<rparr>"

definition property_get :: "('a, 'f, 'z) read_only_property_scheme \<Rightarrow> 'a" where
  "property_get p = prop_value p"

text \<open>\<^verbatim>\<open>observe(slot)\<close> returns the connection and leaves the value alone.\<close>

definition property_observe ::
  "'f \<Rightarrow> ('a, 'f, 'z) read_only_property_scheme \<Rightarrow> nat \<times> ('a, 'f, 'z) read_only_property_scheme" where
  "property_observe f p = (let (c, s) = connect f (prop_signal p) in (c, p\<lparr>prop_signal := s\<rparr>))"

text \<open>\<^verbatim>\<open>notify()\<close> is \<^verbatim>\<open>signal_()\<close>.\<close>

definition property_notify :: "('a, 'f, 'z) read_only_property_scheme \<Rightarrow> 'f firing" where
  "property_notify p = signal_call (prop_signal p)"

text \<open>
  The private \<^verbatim>\<open>read_only_property::set(value, notify, force)\<close>:
  \<^verbatim>\<open>
  if (value == value_ && !force) return;
  value_ = std::forward<U>(value);
  if (notify) this->notify();
  \<close>
  The result is the property afterwards and the firings of its channel.
\<close>

definition read_only_property_set ::
  "'a \<Rightarrow> bool \<Rightarrow> bool \<Rightarrow> ('a, 'f, 'z) read_only_property_scheme
     \<Rightarrow> ('a, 'f, 'z) read_only_property_scheme \<times> 'f firing list" where
  "read_only_property_set v notify force p =
     (if v = prop_value p \<and> \<not> force then (p, [])
      else let p' = p\<lparr>prop_value := v\<rparr>
           in if notify then (p', [property_notify p']) else (p', []))"

text \<open>
  \<^verbatim>\<open>property_setter<T>::set\<close> forwards to the property it points to, and
  \<^verbatim>\<open>property<T>::set\<close> forwards to its \<^verbatim>\<open>setter_\<close>, which points to the property
  itself. The assignment operators are \<^verbatim>\<open>set(value)\<close> with the default flags
  \<^verbatim>\<open>notify = true, force = false\<close>.
\<close>

definition property_setter_set ::
  "'a \<Rightarrow> bool \<Rightarrow> bool \<Rightarrow> ('a, 'f, 'z) read_only_property_scheme
     \<Rightarrow> ('a, 'f, 'z) read_only_property_scheme \<times> 'f firing list" where
  "property_setter_set v notify force p = read_only_property_set v notify force p"

definition property_setter_assign ::
  "'a \<Rightarrow> ('a, 'f, 'z) read_only_property_scheme
     \<Rightarrow> ('a, 'f, 'z) read_only_property_scheme \<times> 'f firing list" where
  "property_setter_assign v p = property_setter_set v True False p"

definition property_set ::
  "'a \<Rightarrow> bool \<Rightarrow> bool \<Rightarrow> ('a, 'f, 'z) read_only_property_scheme
     \<Rightarrow> ('a, 'f, 'z) read_only_property_scheme \<times> 'f firing list" where
  "property_set v notify force p = property_setter_set v notify force p"

definition property_assign ::
  "'a \<Rightarrow> ('a, 'f, 'z) read_only_property_scheme
     \<Rightarrow> ('a, 'f, 'z) read_only_property_scheme \<times> 'f firing list" where
  "property_assign v p = property_setter_assign v p"

text \<open>
  \<^verbatim>\<open>Property<T>::set\<close> of \<^verbatim>\<open>include/v.hpp\<close>, where the class holds the value and the
  channel itself:
  \<^verbatim>\<open>
  if (value == value_ && !force) return;
  value_ = value;
  if (notify) this->notify();
  \<close>
\<close>

definition Property_set ::
  "'a \<Rightarrow> bool \<Rightarrow> bool \<Rightarrow> ('a, 'f) read_only_property
     \<Rightarrow> ('a, 'f) read_only_property \<times> 'f firing list" where
  "Property_set v notify force p =
     (if v = prop_value p \<and> \<not> force then (p, [])
      else let p' = p\<lparr>prop_value := v\<rparr>
           in if notify then (p', [signal_call (prop_signal p')]) else (p', []))"

subsection \<open>The one-shot property\<close>

text \<open>
  \<^verbatim>\<open>one_shot_property<T>\<close> derives from \<^verbatim>\<open>property<T>\<close> and adds
  \<^verbatim>\<open>bool flag_{ false }\<close>.
\<close>

record ('a, 'f) one_shot_property = "('a, 'f) read_only_property" +
  prop_flag :: bool

definition one_shot_property :: "'a \<Rightarrow> ('a, 'f) one_shot_property" where
  "one_shot_property v = \<lparr>prop_value = v, prop_signal = empty_signal, prop_flag = False\<rparr>"

text \<open>
  \<^verbatim>\<open>
  auto set(const T& value, bool notify = true, bool force = false) -> void
  {
    if (flag_) return;
    property<T>::set(value, notify, force);
    flag_ = true;
  }
  \<close>
\<close>

definition one_shot_property_set ::
  "'a \<Rightarrow> bool \<Rightarrow> bool \<Rightarrow> ('a, 'f) one_shot_property
     \<Rightarrow> ('a, 'f) one_shot_property \<times> 'f firing list" where
  "one_shot_property_set v notify force p =
     (if prop_flag p then (p, [])
      else let (p', fs) = property_set v notify force p
           in (p'\<lparr>prop_flag := True\<rparr>, fs))"

text \<open>
  \<^verbatim>\<open>
  auto& operator=(U && value)
  {
    if (flag_) return *this;
    property<T>::operator=(std::forward<U>(value));
    flag_ = true;
    return *this;
  }
  \<close>
\<close>

definition one_shot_property_assign ::
  "'a \<Rightarrow> ('a, 'f) one_shot_property \<Rightarrow> ('a, 'f) one_shot_property \<times> 'f firing list" where
  "one_shot_property_assign v p =
     (if prop_flag p then (p, [])
      else let (p', fs) = property_assign v p
           in (p'\<lparr>prop_flag := True\<rparr>, fs))"

text \<open>
  A caller's writes to a one-shot property, one after the other; the firings
  accumulate.
\<close>

datatype 'a write_op = Set_call 'a bool bool | Assign_call 'a

fun one_shot_write ::
  "'a write_op \<Rightarrow> ('a, 'f) one_shot_property \<Rightarrow> ('a, 'f) one_shot_property \<times> 'f firing list" where
  "one_shot_write (Set_call v notify force) p = one_shot_property_set v notify force p"
| "one_shot_write (Assign_call v) p = one_shot_property_assign v p"

fun one_shot_writes ::
  "'a write_op list \<Rightarrow> ('a, 'f) one_shot_property \<times> 'f firing list
     \<Rightarrow> ('a, 'f) one_shot_property \<times> 'f firing list" where
  "one_shot_writes [] st = st"
| "one_shot_writes (w # ws) (p, fs) =
     (let (p', fs') = one_shot_write w p in one_shot_writes ws (p', fs @ fs'))"

section \<open>Getters\<close>

text \<open>
  \<^verbatim>\<open>getter<T>\<close> holds \<^verbatim>\<open>std::function<T()> getter_\<close> and a channel. A
  \<^verbatim>\<open>std::function\<close> may be empty, so the member is an option; the function reads
  whatever its closure captured, which is the argument of type \<open>'s\<close> here. Calling
  an empty \<^verbatim>\<open>std::function\<close> throws \<^verbatim>\<open>std::bad_function_call\<close>.
\<close>

datatype error = Bad_function_call

record ('s, 'a, 'f) getter =
  getter_fn :: "('s \<Rightarrow> 'a) option"
  getter_signal :: "'f signal"

text \<open>\<^verbatim>\<open>getter() = default\<close> and \<^verbatim>\<open>getter(getter_fn getter)\<close>.\<close>

definition getter_default :: "('s, 'a, 'f) getter" where
  "getter_default = \<lparr>getter_fn = None, getter_signal = empty_signal\<rparr>"

definition getter :: "('s \<Rightarrow> 'a) option \<Rightarrow> ('s, 'a, 'f) getter" where
  "getter fn = \<lparr>getter_fn = fn, getter_signal = empty_signal\<rparr>"

text \<open>\<^verbatim>\<open>auto set(getter_fn getter) { getter_ = getter; }\<close>\<close>

definition getter_set :: "('s \<Rightarrow> 'a) option \<Rightarrow> ('s, 'a, 'f) getter \<Rightarrow> ('s, 'a, 'f) getter" where
  "getter_set fn g = g\<lparr>getter_fn := fn\<rparr>"

text \<open>\<^verbatim>\<open>auto get() const { return getter_(); }\<close>\<close>

definition getter_get :: "('s, 'a, 'f) getter \<Rightarrow> 's \<Rightarrow> error + 'a" where
  "getter_get g env = (case getter_fn g of None \<Rightarrow> Inl Bad_function_call | Some fn \<Rightarrow> Inr (fn env))"

text \<open>
  \<^verbatim>\<open>getter_observer<T>\<close> holds its own copy \<^verbatim>\<open>getter_\<close> of the function and the
  closure \<^verbatim>\<open>connector_\<close> over the producer's channel; only the copy matters to
  \<^verbatim>\<open>get()\<close> and to \<^verbatim>\<open>operator bool\<close>. \<^verbatim>\<open>getter::observer()\<close> builds one with
  \<^verbatim>\<open>getter_observer<T> { getter_, connect }\<close>.
\<close>

record ('s, 'a) getter_observer =
  observer_getter :: "('s \<Rightarrow> 'a) option"

definition getter_observer_default :: "('s, 'a) getter_observer" where
  "getter_observer_default = \<lparr>observer_getter = None\<rparr>"

definition observer :: "('s, 'a, 'f) getter \<Rightarrow> ('s, 'a) getter_observer" where
  "observer g = \<lparr>observer_getter = getter_fn g\<rparr>"

text \<open>\<^verbatim>\<open>operator bool() const { return bool(getter_); }\<close>\<close>

definition getter_observer_bool :: "('s, 'a) getter_observer \<Rightarrow> bool" where
  "getter_observer_bool ob = (observer_getter ob \<noteq> None)"

definition getter_observer_get :: "('s, 'a) getter_observer \<Rightarrow> 's \<Rightarrow> error + 'a" where
  "getter_observer_get ob env =
     (case observer_getter ob of None \<Rightarrow> Inl Bad_function_call | Some fn \<Rightarrow> Inr (fn env))"

subsection \<open>What the two classes declare\<close>

text \<open>
  The public member functions of a class, by kind. \<open>Operator_bool\<close> is a conversion
  function \<^verbatim>\<open>operator bool() const\<close>; \<open>Shift_right\<close> is \<^verbatim>\<open>operator>>\<close>, \<open>Call\<close> is
  \<^verbatim>\<open>operator()\<close> and \<open>Dereference\<close> is \<^verbatim>\<open>operator*\<close>.
\<close>

datatype member =
    Constructor | Assignment | Notify | Observe | Shift_right | Observer_factory
  | Set_function | Get | Call | Dereference | Operator_bool

text \<open>
  \<^verbatim>\<open>class getter\<close>, in the order of its declarations: \<^verbatim>\<open>getter() = default\<close>,
  \<^verbatim>\<open>getter(getter_fn)\<close>, \<^verbatim>\<open>notify\<close>, \<^verbatim>\<open>observe\<close>, \<^verbatim>\<open>operator>>\<close>, \<^verbatim>\<open>observer\<close>,
  \<^verbatim>\<open>set\<close>, \<^verbatim>\<open>get\<close>, \<^verbatim>\<open>operator()\<close>, \<^verbatim>\<open>operator*\<close>.
\<close>

definition getter_members :: "member list" where
  "getter_members =
     [Constructor, Constructor, Notify, Observe, Shift_right, Observer_factory,
      Set_function, Get, Call, Dereference]"

text \<open>
  \<^verbatim>\<open>class getter_observer\<close>: the defaulted default, copy and move constructors and
  copy and move assignments, \<^verbatim>\<open>getter_observer(getter_t, connector_t)\<close>, \<^verbatim>\<open>get\<close>,
  \<^verbatim>\<open>operator()\<close>, \<^verbatim>\<open>operator bool\<close>, \<^verbatim>\<open>observe\<close>, \<^verbatim>\<open>operator>>\<close>.
\<close>

definition getter_observer_members :: "member list" where
  "getter_observer_members =
     [Constructor, Constructor, Constructor, Assignment, Assignment, Constructor,
      Get, Call, Operator_bool, Observe, Shift_right]"

text \<open>
  \<^verbatim>\<open>class Getter\<close> and \<^verbatim>\<open>class GetterObserver\<close> of \<^verbatim>\<open>include/v.hpp\<close>, which have no
  \<^verbatim>\<open>operator>>\<close> and no \<^verbatim>\<open>operator*\<close>.
\<close>

definition Getter_members :: "member list" where
  "Getter_members =
     [Constructor, Constructor, Notify, Observe, Observer_factory, Set_function, Get, Call]"

definition GetterObserver_members :: "member list" where
  "GetterObserver_members =
     [Constructor, Constructor, Constructor, Assignment, Assignment, Constructor,
      Get, Call, Observe, Operator_bool]"

section \<open>Expiry tokens\<close>

text \<open>
  \<^verbatim>\<open>expiry_token\<close> holds \<^verbatim>\<open>signal<void()> signal_\<close> and \<^verbatim>\<open>bool expired_{false}\<close>.
\<close>

record 'f expiry_token =
  tok_signal :: "'f signal"
  tok_expired :: bool

definition expiry_token :: "'f expiry_token" where
  "expiry_token = \<lparr>tok_signal = empty_signal, tok_expired = False\<rparr>"

text \<open>
  \<^verbatim>\<open>
  auto expire() -> void
  {
    if (expired_) return;
    expired_ = true;
    signal_();
  }
  \<close>
\<close>

definition expire :: "'f expiry_token \<Rightarrow> 'f expiry_token \<times> 'f firing list" where
  "expire t =
     (if tok_expired t then (t, [])
      else let t' = t\<lparr>tok_expired := True\<rparr> in (t', [signal_call (tok_signal t')]))"

definition is_expired :: "'f expiry_token \<Rightarrow> bool" where
  "is_expired t = tok_expired t"

text \<open>\<^verbatim>\<open>observe_expiry(slot)\<close> is \<^verbatim>\<open>signal_ >> slot\<close>, that is \<^verbatim>\<open>signal_.connect(slot)\<close>.\<close>

definition observe_expiry :: "'f \<Rightarrow> 'f expiry_token \<Rightarrow> nat \<times> 'f expiry_token" where
  "observe_expiry f t = (let (c, s) = connect f (tok_signal t) in (c, t\<lparr>tok_signal := s\<rparr>))"

text \<open>
  The two revisions of the class differ in how a token is destroyed. The revision with
  the channel type \<^verbatim>\<open>detail::signal_base\<close> declares the destructor
  \<^verbatim>\<open>~expiry_token() { expire(); }\<close>. The result is the token as the destructor body
  leaves it, just before the members are destroyed, and the firings of the body.
\<close>

definition destroy_expiry_token :: "'f expiry_token \<Rightarrow> 'f expiry_token \<times> 'f firing list" where
  "destroy_expiry_token t = expire t"

text \<open>
  The other revision, the one with \<^verbatim>\<open>struct with_expiry_token\<close>, declares no
  destructor: the implicit one has an empty body and then destroys \<^verbatim>\<open>expired_\<close> and
  \<^verbatim>\<open>signal_\<close>. Nothing is assigned and the channel is not invoked.
\<close>

definition destroy_expiry_token_implicit ::
  "'f expiry_token \<Rightarrow> 'f expiry_token \<times> 'f firing list" where
  "destroy_expiry_token_implicit t = (t, [])"

text \<open>
  What a program can do to one token, in any order: the three member functions, and
  \<^verbatim>\<open>disconnect()\<close> on a connection that \<^verbatim>\<open>observe_expiry\<close> returned. The firings
  accumulate; \<open>calls\<close> lists the callbacks they called, in calling order.
\<close>

datatype 'f token_op = Expire | Is_expired | Observe_expiry 'f | Disconnect nat

fun token_step :: "'f token_op \<Rightarrow> 'f expiry_token \<Rightarrow> 'f expiry_token \<times> 'f firing list" where
  "token_step Expire t = expire t"
| "token_step Is_expired t = (t, [])"
| "token_step (Observe_expiry f) t = (snd (observe_expiry f t), [])"
| "token_step (Disconnect c) t = (t\<lparr>tok_signal := disconnect c (tok_signal t)\<rparr>, [])"

fun token_run ::
  "'f token_op list \<Rightarrow> 'f expiry_token \<times> 'f firing list \<Rightarrow> 'f expiry_token \<times> 'f firing list" where
  "token_run [] st = st"
| "token_run (op # ops) (t, fs) =
     (let (t', fs') = token_step op t in token_run ops (t', fs @ fs'))"

definition calls :: "'f firing list \<Rightarrow> 'f list" where
  "calls fs = map snd (concat fs)"

section \<open>The attacher\<close>

text \<open>
  An attacher works on objects that are \<^verbatim>\<open>expirable\<close>, each owning one expiry token
  to which \<^verbatim>\<open>expire\<close>, \<^verbatim>\<open>is_expired\<close> and \<^verbatim>\<open>observe_expiry\<close> delegate. An
  object is its address, a number. The callbacks connected to a token are the
  closures of the attacher and the callbacks of other code; of the latter only the
  call itself is recorded, as \<open>Called n\<close> for the callback \<open>Observer n\<close>. The owner's
  hooks (\<^verbatim>\<open>attach(object)\<close> and \<^verbatim>\<open>detach(object)\<close> of the class that derives from the
  attacher, \<^verbatim>\<open>update(v::attach<U>{object})\<close> and \<^verbatim>\<open>update(v::detach<U>{object})\<close>
  in the other revision) are recorded the same way.
\<close>

datatype slot_fn = Observer nat | On_expired nat

datatype event = Called nat | Attach_hook nat | Detach_hook nat

text \<open>
  The world of one attacher: the token of every object, the attacher's member
  \<^verbatim>\<open>std::unordered_map<intptr_t, v::scoped_cn> attached_objects_\<close>, and what has been
  called so far. A connection is the object whose token it belongs to and its number
  there; the key of an object is its address.
\<close>

record world =
  tokens :: "nat \<Rightarrow> slot_fn expiry_token"
  attached_objects :: "nat \<rightharpoonup> nat \<times> nat"
  events :: "event list"

definition new_world :: world where
  "new_world = \<lparr>tokens = (\<lambda>x. expiry_token), attached_objects = Map.empty, events = []\<rparr>"

text \<open>
  Modelled from the spec: a \<^verbatim>\<open>scoped_connection\<close> of the library disconnects the
  connection it holds when it is destroyed or assigned to; an empty one holds nothing.
\<close>

definition scoped_cn_release :: "(nat \<times> nat) option \<Rightarrow> world \<Rightarrow> world" where
  "scoped_cn_release h w =
     (case h of
        None \<Rightarrow> w
      | Some (x, c) \<Rightarrow>
          w\<lparr>tokens := (tokens w)(x := (tokens w x)\<lparr>tok_signal := disconnect c (tok_signal (tokens w x))\<rparr>)\<rparr>)"

text \<open>\<^verbatim>\<open>attached_objects_.erase(key)\<close> destroys the mapped scoped connection.\<close>

definition erase :: "nat \<Rightarrow> world \<Rightarrow> world" where
  "erase k w =
     (scoped_cn_release (attached_objects w k) w)\<lparr>attached_objects := (attached_objects w)(k := None)\<rparr>"

text \<open>
  \<^verbatim>\<open>
  auto detach(U object) -> void
  {
    attached_objects_.erase(std::hash<U>()(object));
    static_cast<T*>(this)->update(v::detach<U>{object});
  }
  \<close>
  The closure \<^verbatim>\<open>on_expired\<close> calls it; in the revision without \<^verbatim>\<open>detach\<close> the
  closure holds the same two statements.
\<close>

definition detach :: "nat \<Rightarrow> world \<Rightarrow> world" where
  "detach x w = (let w' = erase x w in w'\<lparr>events := events w' @ [Detach_hook x]\<rparr>)"

text \<open>
  \<^verbatim>\<open>
  auto operator<<(U* object) -> void
  {
    const auto on_expired = [=]()
    {
      attached_objects_.erase(reinterpret_cast<intptr_t>(object));
      static_cast<T*>(this)->detach(object);
    };
    static_cast<T*>(this)->attach(object);
    attached_objects_[reinterpret_cast<intptr_t>(object)] = object->observe_expiry(on_expired);
  }
  \<close>
  The assignment to the map entry releases the connection the entry held before.
\<close>

definition attach :: "nat \<Rightarrow> world \<Rightarrow> world" where
  "attach x w =
     (let w1 = w\<lparr>events := events w @ [Attach_hook x]\<rparr>;
          (c, t) = observe_expiry (On_expired x) (tokens w1 x);
          w2 = w1\<lparr>tokens := (tokens w1)(x := t)\<rparr>;
          w3 = scoped_cn_release (attached_objects w2 x) w2
      in w3\<lparr>attached_objects := (attached_objects w3)(x \<mapsto> (x, c))\<rparr>)"

text \<open>Calling a slot: the closure runs \<open>detach\<close>, any other callback is recorded.\<close>

fun slot_call :: "slot_fn \<Rightarrow> world \<Rightarrow> world" where
  "slot_call (Observer n) w = w\<lparr>events := events w @ [Called n]\<rparr>"
| "slot_call (On_expired x) w = detach x w"

text \<open>
  A firing of the token of \<open>x\<close> goes through the slots that were connected when it
  began and calls each one that is still connected when its turn comes.
\<close>

definition invoke :: "nat \<Rightarrow> nat \<times> slot_fn \<Rightarrow> world \<Rightarrow> world" where
  "invoke x e w = (if connected (fst e) (tok_signal (tokens w x)) then slot_call (snd e) w else w)"

text \<open>\<^verbatim>\<open>object->expire()\<close>, with the callbacks it runs.\<close>

definition object_expire :: "nat \<Rightarrow> world \<Rightarrow> world" where
  "object_expire x w =
     (let (t, fs) = expire (tokens w x);
          w' = w\<lparr>tokens := (tokens w)(x := t)\<rparr>
      in fold (invoke x) (concat fs) w')"

text \<open>\<^verbatim>\<open>object->observe_expiry(slot)\<close> by other code, with the callback \<open>Observer n\<close>.\<close>

definition object_observe_expiry :: "nat \<Rightarrow> nat \<Rightarrow> world \<Rightarrow> world" where
  "object_observe_expiry x n w =
     w\<lparr>tokens := (tokens w)(x := snd (observe_expiry (Observer n) (tokens w x)))\<rparr>"

text \<open>
  What a program can do with the attacher and the objects: \<^verbatim>\<open>attacher << object\<close>,
  \<^verbatim>\<open>attacher >> object\<close> (which is \<open>detach\<close>), expiring an object, and observing an
  object's expiry.
\<close>

datatype world_op = Attach nat | Detach nat | Object_expire nat | Object_observe nat nat

fun world_step :: "world_op \<Rightarrow> world \<Rightarrow> world" where
  "world_step (Attach x) w = attach x w"
| "world_step (Detach x) w = detach x w"
| "world_step (Object_expire x) w = object_expire x w"
| "world_step (Object_observe x n) w = object_observe_expiry x n w"

definition world_run :: "world_op list \<Rightarrow> world \<Rightarrow> world" where
  "world_run ops w = fold world_step ops w"

section \<open>Well-formed channels\<close>

text \<open>
  Connection numbers are handed out once: in a channel built by \<open>connect\<close> and
  \<open>disconnect\<close> from the empty one no two slots share a number, and every number in
  use is below \<open>next_cn\<close>.
\<close>

definition wf_signal :: "'f signal \<Rightarrow> bool" where
  "wf_signal s = (distinct (map fst (slots s)) \<and> list_all (\<lambda>e. fst e < next_cn s) (slots s))"

text \<open>How often a firing list calls the connection \<open>c\<close>.\<close>

definition times_called :: "nat \<Rightarrow> 'f firing list \<Rightarrow> nat" where
  "times_called c fs = count_list (map fst (concat fs)) c"

section \<open>The worlds an attacher can be in\<close>

text \<open>The event that calling a slot records.\<close>

fun slot_event :: "nat \<times> slot_fn \<Rightarrow> event" where
  "slot_event (c, Observer n) = Called n"
| "slot_event (c, On_expired x) = Detach_hook x"

text \<open>
  What holds of every world that the operations build from \<open>new_world\<close>: the channels
  are well formed; a closure of the attacher is connected only to the token of its own
  object, and then through the connection that the map holds for that object; and the
  connection in a map entry belongs to the token of the entry's key and has been handed
  out by that token's channel.
\<close>

definition world_inv :: "world \<Rightarrow> bool" where
  "world_inv w =
     ((\<forall>x. wf_signal (tok_signal (tokens w x)))
      \<and> (\<forall>x c y. (c, On_expired y) \<in> set (slots (tok_signal (tokens w x)))
            \<longrightarrow> y = x \<and> attached_objects w x = Some (x, c))
      \<and> (\<forall>k x c. attached_objects w k = Some (x, c)
            \<longrightarrow> x = k \<and> c < next_cn (tok_signal (tokens w x))))"

text \<open>The object \<open>x\<close> is alive and attached: the map holds its closure's connection.\<close>

definition attached_alive :: "nat \<Rightarrow> world \<Rightarrow> bool" where
  "attached_alive x w =
     (\<not> tok_expired (tokens w x)
      \<and> (\<exists>c. attached_objects w x = Some (x, c)
             \<and> (c, On_expired x) \<in> set (slots (tok_signal (tokens w x)))))"

text \<open>The events that \<open>w'\<close> has recorded since \<open>w\<close>.\<close>

definition events_since :: "world \<Rightarrow> world \<Rightarrow> event list" where
  "events_since w w' = drop (length (events w)) (events w')"

section \<open>Example data\<close>

text \<open>A live token with two registered callbacks.\<close>

definition two_observers :: "string expiry_token" where
  "two_observers = \<lparr>tok_signal = \<lparr>slots = [(0, ''a''), (1, ''b'')], next_cn = 2\<rparr>, tok_expired = False\<rparr>"

text \<open>A world in which object 7 has been attached and has expired.\<close>

definition expired_world :: world where
  "expired_world = object_expire 7 (attach 7 new_world)"

text \<open>A world with a callback observing object 7 and with object 3 attached.\<close>

definition busy_world :: world where
  "busy_world = world_run [Object_observe 7 1, Attach 3] new_world"

section \<open>Properties: the write contract and the latch\<close>

lemma property_set_eq:
  "property_set v notify force p = read_only_property_set v notify force p"
  by (simp add: property_set_def property_setter_set_def)

lemma property_assign_eq:
  "property_assign v p = read_only_property_set v True False p"
  by (simp add: property_assign_def property_setter_assign_def property_setter_set_def)

lemma latched_set: "prop_flag p \<Longrightarrow> one_shot_property_set v notify force p = (p, [])"
  by (simp add: one_shot_property_set_def)

lemma latched_assign: "prop_flag p \<Longrightarrow> one_shot_property_assign v p = (p, [])"
  by (simp add: one_shot_property_assign_def)

lemma latched_write: "prop_flag p \<Longrightarrow> one_shot_write w p = (p, [])"
  by (cases w) (simp_all add: latched_set latched_assign)

lemma latched_writes: "prop_flag p \<Longrightarrow> one_shot_writes ws (p, fs) = (p, fs)"
  by (induction ws) (simp_all add: latched_write)

lemma one_shot_write_latches: "prop_flag (fst (one_shot_write w p))"
  by (cases w)
     (auto simp: one_shot_property_set_def one_shot_property_assign_def split: prod.splits)

text \<open>
  Claim C1. For a property with current value \<open>prop_value p\<close>: \<open>set(v, notify, force)\<close>
  with \<open>v\<close> equal to the current value and \<open>force = false\<close> returns the property as
  it was and fires nothing. Otherwise the stored value becomes \<open>v\<close>, nothing else
  changes, and the channel fires if and only if \<open>notify\<close> is true, once, calling the
  connected slots without arguments. \<^verbatim>\<open>Property<T>::set\<close> of \<^verbatim>\<open>include/v.hpp\<close> does the
  same.
\<close>

theorem property_set_contract:
  fixes p :: "('a, 'f) read_only_property"
  shows "(v = prop_value p \<and> \<not> force \<longrightarrow> property_set v notify force p = (p, []))
   \<and> (v \<noteq> prop_value p \<or> force \<longrightarrow>
        fst (property_set v notify force p) = p\<lparr>prop_value := v\<rparr>
        \<and> property_get (fst (property_set v notify force p)) = v
        \<and> (snd (property_set v notify force p) \<noteq> [] \<longleftrightarrow> notify)
        \<and> (notify \<longrightarrow> snd (property_set v notify force p) = [signal_call (prop_signal p)]))
   \<and> Property_set v notify force p = property_set v notify force p"
  by (simp add: property_set_eq read_only_property_set_def Property_set_def property_notify_def
      property_get_def Let_def)

theorem property_set_contract_witness:
  "property_set (1::nat) True False \<lparr>prop_value = 0, prop_signal = \<lparr>slots = [(0, ''f'')], next_cn = 1\<rparr>\<rparr>
     = (\<lparr>prop_value = 1, prop_signal = \<lparr>slots = [(0, ''f'')], next_cn = 1\<rparr>\<rparr>, [[(0, ''f'')]])
   \<and> property_set (0::nat) True False \<lparr>prop_value = 0, prop_signal = \<lparr>slots = [(0, ''f'')], next_cn = 1\<rparr>\<rparr>
     = (\<lparr>prop_value = 0, prop_signal = \<lparr>slots = [(0, ''f'')], next_cn = 1\<rparr>\<rparr>, [])"
  using property_set_contract [where v = "1::nat" and force = False and notify = True
      and p = "\<lparr>prop_value = 0, prop_signal = \<lparr>slots = [(0, ''f'')], next_cn = 1\<rparr>\<rparr>"]
    property_set_contract [where v = "0::nat" and force = False and notify = True
      and p = "\<lparr>prop_value = 0, prop_signal = \<lparr>slots = [(0, ''f'')], next_cn = 1\<rparr>\<rparr>"]
  by (simp add: signal_call_def prod_eq_iff)

text \<open>
  The scenario of the spec: a property holding 0 with one observer; \<open>set(1)\<close> calls
  it, a second \<open>set(1)\<close> does not, \<open>set(1, true, true)\<close> calls it again, and after
  \<open>disconnect()\<close> a \<open>set(2)\<close> stores the value and calls nobody.
\<close>

lemma property_scenario:
  fixes p0 p1 p2 p3 p4 p5 :: "(nat, string) read_only_property"
  assumes "p0 = snd (property_observe ''O'' (read_only_property 0))"
    and "p1 = fst (property_set 1 True False p0)"
    and "p2 = fst (property_set 1 True False p1)"
    and "p3 = fst (property_set 1 True True p2)"
    and "p4 = p3\<lparr>prop_signal := disconnect 0 (prop_signal p3)\<rparr>"
    and "p5 = fst (property_set 2 True False p4)"
  shows "calls (snd (property_set 1 True False p0)) = [''O'']"
    and "snd (property_set 1 True False p1) = []"
    and "calls (snd (property_set 1 True True p2)) = [''O'']"
    and "calls (snd (property_set 2 True False p4)) = []"
    and "property_get p5 = 2"
  unfolding assms
  by (simp_all add: property_set_eq read_only_property_set_def property_notify_def
      property_observe_def read_only_property_def connect_def disconnect_def empty_signal_def
      signal_call_def calls_def property_get_def)

text \<open>
  Claim C5. On a one-shot property that has not been written and holds \<open>v0\<close>, the call
  \<open>set(v0, true, false)\<close> fires nothing and leaves the value, yet sets the latch:
  every later sequence of writes, whatever the values and flags, changes nothing and
  fires nothing.
\<close>

theorem one_shot_first_set_same_value:
  assumes "\<not> prop_flag p" and "prop_value p = v0"
  shows "snd (one_shot_property_set v0 True False p) = []
    \<and> prop_value (fst (one_shot_property_set v0 True False p)) = v0
    \<and> fst (one_shot_property_set v0 True False p) = p\<lparr>prop_flag := True\<rparr>
    \<and> one_shot_writes ws (fst (one_shot_property_set v0 True False p), fs)
        = (fst (one_shot_property_set v0 True False p), fs)"
proof -
  have s: "one_shot_property_set v0 True False p = (p\<lparr>prop_flag := True\<rparr>, [])"
    using assms by (simp add: one_shot_property_set_def property_set_eq read_only_property_set_def)
  show ?thesis using assms by (simp add: s latched_writes)
qed

theorem one_shot_first_set_same_value_witness:
  "\<not> prop_flag (one_shot_property 5 :: (nat, string) one_shot_property)
   \<and> prop_value (one_shot_property 5 :: (nat, string) one_shot_property) = 5
   \<and> snd (one_shot_property_set (5::nat) True False (one_shot_property 5 :: (nat, string) one_shot_property)) = []
   \<and> one_shot_writes [Set_call 7 True True, Assign_call 9]
        (fst (one_shot_property_set (5::nat) True False (one_shot_property 5 :: (nat, string) one_shot_property)), [])
      = (fst (one_shot_property_set (5::nat) True False (one_shot_property 5 :: (nat, string) one_shot_property)), [])"
proof -
  have h1: "\<not> prop_flag (one_shot_property 5 :: (nat, string) one_shot_property)"
    by (simp add: one_shot_property_def)
  have h2: "prop_value (one_shot_property 5 :: (nat, string) one_shot_property) = 5"
    by (simp add: one_shot_property_def)
  from one_shot_first_set_same_value [OF h1 h2, of "[Set_call 7 True True, Assign_call 9]" "[]"] h1 h2
  show ?thesis by blast
qed

text \<open>
  Claim C6. On a one-shot property that has not been written, a first \<open>set(a)\<close> with
  \<open>a\<close> different from the stored value makes \<open>get()\<close> return \<open>a\<close> and fires the
  channel once. A following \<open>set(b)\<close> or assignment of \<open>b \<noteq> a\<close> returns normally, the
  property unchanged (so \<open>get()\<close> is still \<open>a\<close>) and nothing fired.
\<close>

theorem one_shot_second_set_ignored:
  assumes "\<not> prop_flag p" and "a \<noteq> prop_value p"
  shows "property_get (fst (one_shot_property_set a True False p)) = a
    \<and> snd (one_shot_property_set a True False p) = [signal_call (prop_signal p)]
    \<and> (b \<noteq> a \<longrightarrow>
         one_shot_property_set b notify force (fst (one_shot_property_set a True False p))
           = (fst (one_shot_property_set a True False p), [])
         \<and> one_shot_property_assign b (fst (one_shot_property_set a True False p))
           = (fst (one_shot_property_set a True False p), [])
         \<and> property_get (fst (one_shot_property_set b notify force
              (fst (one_shot_property_set a True False p)))) = a)"
proof -
  have s: "one_shot_property_set a True False p
             = (p\<lparr>prop_value := a, prop_flag := True\<rparr>, [signal_call (prop_signal p)])"
    using assms
    by (simp add: one_shot_property_set_def property_set_eq read_only_property_set_def
        property_notify_def)
  show ?thesis by (simp add: s latched_set latched_assign property_get_def)
qed

text \<open>
  Claim C9. After a first write (a \<open>set\<close> or an assignment, of any value and flags)
  to a one-shot property \<open>p0\<close>, every \<open>set(v, notify, force)\<close>, every assignment and
  every sequence of them returns the property as it was (value, latch and channel) with
  no firing, also when \<open>force\<close> is true.
\<close>

theorem one_shot_latched_frame:
  "one_shot_property_set v notify force (fst (one_shot_write w p0)) = (fst (one_shot_write w p0), [])
   \<and> one_shot_property_assign v (fst (one_shot_write w p0)) = (fst (one_shot_write w p0), [])
   \<and> one_shot_writes ws (fst (one_shot_write w p0), fs) = (fst (one_shot_write w p0), fs)"
  by (simp add: latched_set latched_assign latched_writes one_shot_write_latches)


theorem one_shot_second_set_ignored_witness:
  "\<not> prop_flag (one_shot_property 0 :: (nat, string) one_shot_property)
   \<and> (1::nat) \<noteq> prop_value (one_shot_property 0 :: (nat, string) one_shot_property)
   \<and> (2::nat) \<noteq> 1
   \<and> property_get (fst (one_shot_property_set 1 True False (one_shot_property 0 :: (nat, string) one_shot_property))) = 1
   \<and> property_get (fst (one_shot_property_set 2 True False
        (fst (one_shot_property_set 1 True False (one_shot_property 0 :: (nat, string) one_shot_property))))) = 1"
proof -
  have h1: "\<not> prop_flag (one_shot_property 0 :: (nat, string) one_shot_property)"
    by (simp add: one_shot_property_def)
  have h2: "(1::nat) \<noteq> prop_value (one_shot_property 0 :: (nat, string) one_shot_property)"
    by (simp add: one_shot_property_def)
  have h3: "(2::nat) \<noteq> 1" by simp
  from one_shot_second_set_ignored [OF h1 h2, of 2 True False] h1 h2 h3
  show ?thesis by blast
qed

section \<open>Channels and tokens: auxiliary facts\<close>

lemma wf_empty_signal: "wf_signal empty_signal"
  by (simp add: wf_signal_def empty_signal_def)

lemma wf_connect: "wf_signal s \<Longrightarrow> wf_signal (snd (connect f s))"
  by (auto simp: wf_signal_def connect_def list_all_iff)

lemma wf_disconnect: "wf_signal s \<Longrightarrow> wf_signal (disconnect c s)"
  by (auto simp: wf_signal_def disconnect_def list_all_iff distinct_map_filter)

lemma count_list_distinct:
  "distinct xs \<Longrightarrow> count_list xs c = (if c \<in> set xs then 1 else 0)"
  by (induction xs) auto

lemma times_called_firing:
  "wf_signal s \<Longrightarrow> times_called c [slots s] = (if connected c s then 1 else 0)"
  by (simp add: times_called_def wf_signal_def connected_def count_list_distinct)

lemma expire_alive:
  "\<not> tok_expired t \<Longrightarrow> expire t = (t\<lparr>tok_expired := True\<rparr>, [slots (tok_signal t)])"
  by (simp add: expire_def signal_call_def)

lemma expire_expired: "tok_expired t \<Longrightarrow> expire t = (t, [])"
  by (simp add: expire_def)

lemma token_step_expired:
  "tok_expired t \<Longrightarrow> tok_expired (fst (token_step op t)) \<and> snd (token_step op t) = []"
  by (cases op) (simp_all add: expire_expired observe_expiry_def connect_def)

lemma token_run_expired:
  "tok_expired t \<Longrightarrow>
     tok_expired (fst (token_run ops (t, fs))) \<and> snd (token_run ops (t, fs)) = fs"
proof (induction ops arbitrary: t fs)
  case Nil
  then show ?case by simp
next
  case (Cons op ops)
  obtain t' fs' where st: "token_step op t = (t', fs')" by (cases "token_step op t")
  with Cons.prems token_step_expired [of t op] have "tok_expired t'" and "fs' = []" by auto
  with Cons.IH [of t' fs] st show ?case by simp
qed

lemma token_run_replicate_expire:
  "\<not> tok_expired t \<Longrightarrow>
     token_run (replicate (Suc n) Expire) (t, fs) = (t\<lparr>tok_expired := True\<rparr>, fs @ [slots (tok_signal t)])"
proof -
  assume a: "\<not> tok_expired t"
  let ?t = "t\<lparr>tok_expired := True\<rparr>" and ?fs = "fs @ [slots (tok_signal t)]"
  have "token_run (replicate (Suc n) Expire) (t, fs) = token_run (replicate n Expire) (?t, ?fs)"
    using a by (simp add: expire_alive)
  moreover have "tok_expired ?t" by simp
  from token_run_expired [OF this, of "replicate n Expire" ?fs]
  have "snd (token_run (replicate n Expire) (?t, ?fs)) = ?fs" by simp
  moreover have "fst (token_run (replicate n Expire) (?t, ?fs)) = ?t"
    by (induction n) (simp_all add: expire_expired)
  ultimately show ?thesis by (simp add: prod_eq_iff)
qed

lemma token_run_fires_once:
  "\<not> tok_expired t \<Longrightarrow> Expire \<in> set ops \<Longrightarrow>
     length (snd (token_run ops (t, fs))) = Suc (length fs)"
proof (induction ops arbitrary: t fs)
  case Nil
  then show ?case by simp
next
  case (Cons op ops)
  show ?case
  proof (cases "op = Expire")
    case True
    have "tok_expired (t\<lparr>tok_expired := True\<rparr>)" by simp
    from token_run_expired [OF this, of ops "fs @ [slots (tok_signal t)]"] True Cons.prems(1)
    show ?thesis by (simp add: expire_alive)
  next
    case False
    with Cons.prems have in_ops: "Expire \<in> set ops" by simp
    obtain t' fs' where st: "token_step op t = (t', fs')" by (cases "token_step op t")
    with False Cons.prems(1) have "\<not> tok_expired t'" and "fs' = []"
      by (cases op; simp add: observe_expiry_def connect_def; fastforce)+
    with Cons.IH [OF _ in_ops, of t' fs] st show ?thesis by simp
  qed
qed

section \<open>Expiry tokens and getters: the claims\<close>

text \<open>
  The destructor \<^verbatim>\<open>~expiry_token() { expire(); }\<close>, where it is declared: destroying a
  token that has not expired sets the flag and fires the channel once, calling every
  connected slot exactly once, in registration order, and no other.
\<close>

lemma destructor_fires_channel:
  assumes "wf_signal (tok_signal t)" and "\<not> is_expired t"
  shows "is_expired (fst (destroy_expiry_token t))
    \<and> destroy_expiry_token t = (t\<lparr>tok_expired := True\<rparr>, [slots (tok_signal t)])
    \<and> calls (snd (destroy_expiry_token t)) = map snd (slots (tok_signal t))
    \<and> times_called c (snd (destroy_expiry_token t)) = (if connected c (tok_signal t) then 1 else 0)"
  using assms
  by (simp add: destroy_expiry_token_def is_expired_def expire_alive calls_def
      times_called_firing)

text \<open>
  Without a declared destructor nothing of the kind happens, whatever the token: it is
  destroyed as it is, and nobody is called.
\<close>

lemma implicit_destructor_silent:
  "is_expired (fst (destroy_expiry_token_implicit t)) = is_expired t
   \<and> calls (snd (destroy_expiry_token_implicit t)) = []
   \<and> times_called c (snd (destroy_expiry_token_implicit t)) = 0"
  by (simp add: destroy_expiry_token_implicit_def calls_def times_called_def)

text \<open>
  Claim C2. The claim is about every expiry token, and the two revisions of the class
  disagree on it. At the live token with the two callbacks \<open>a\<close> and \<open>b\<close>: where the
  destructor is declared, destruction expires the token and calls \<open>a\<close>, then \<open>b\<close>, each
  once, as the claim says; where none is declared, the token is destroyed still not
  expired and neither callback is called.
\<close>

theorem destroy_revisions_differ:
  "wf_signal (tok_signal two_observers)
   \<and> \<not> is_expired two_observers
   \<and> connected 0 (tok_signal two_observers)
   \<and> connected 1 (tok_signal two_observers)
   \<and> is_expired (fst (destroy_expiry_token two_observers))
   \<and> calls (snd (destroy_expiry_token two_observers)) = [''a'', ''b'']
   \<and> times_called 0 (snd (destroy_expiry_token two_observers)) = 1
   \<and> times_called 1 (snd (destroy_expiry_token two_observers)) = 1
   \<and> \<not> is_expired (fst (destroy_expiry_token_implicit two_observers))
   \<and> calls (snd (destroy_expiry_token_implicit two_observers)) = []
   \<and> times_called 0 (snd (destroy_expiry_token_implicit two_observers)) = 0
   \<and> times_called 1 (snd (destroy_expiry_token_implicit two_observers)) = 0"
  by (simp add: two_observers_def wf_signal_def is_expired_def connected_def
      destroy_expiry_token_def destroy_expiry_token_implicit_def expire_def signal_call_def
      calls_def times_called_def)

text \<open>
  Claim C3. On a token that has not expired, \<open>n \<ge> 1\<close> calls of \<open>expire()\<close> in a row
  set the flag and fire the channel once, calling every connected slot exactly once:
  the first call does both, and \<open>expire()\<close> on the expired token returns it unchanged
  and fires nothing. More generally, any sequence of operations that contains an
  \<open>expire()\<close> fires the channel exactly once.
\<close>

theorem expire_fires_once:
  assumes "wf_signal (tok_signal t)" and "\<not> is_expired t" and "1 \<le> n"
  shows "token_run (replicate n Expire) (t, []) = (t\<lparr>tok_expired := True\<rparr>, [slots (tok_signal t)])
    \<and> times_called c (snd (token_run (replicate n Expire) (t, [])))
        = (if connected c (tok_signal t) then 1 else 0)
    \<and> expire t = (t\<lparr>tok_expired := True\<rparr>, [slots (tok_signal t)])
    \<and> expire (t\<lparr>tok_expired := True\<rparr>) = (t\<lparr>tok_expired := True\<rparr>, [])
    \<and> (Expire \<in> set ops \<longrightarrow> length (snd (token_run ops (t, []))) = 1)"
proof -
  from assms(3) obtain m where n: "n = Suc m" by (cases n) auto
  from assms(2) have a: "\<not> tok_expired t" by (simp add: is_expired_def)
  have r: "token_run (replicate n Expire) (t, []) = (t\<lparr>tok_expired := True\<rparr>, [slots (tok_signal t)])"
    unfolding n using token_run_replicate_expire [OF a, of m "[]"] by simp
  have l: "Expire \<in> set ops \<longrightarrow> length (snd (token_run ops (t, []))) = 1"
    using token_run_fires_once [OF a, of ops "[]"] by simp
  show ?thesis
    using a l by (simp add: r times_called_firing [OF assms(1)] expire_alive expire_expired)
qed

theorem expire_fires_once_witness:
  "wf_signal (tok_signal two_observers) \<and> \<not> is_expired two_observers \<and> (1::nat) \<le> 3
   \<and> token_run (replicate 3 Expire) (two_observers, [])
       = (two_observers\<lparr>tok_expired := True\<rparr>, [slots (tok_signal two_observers)])
   \<and> slots (tok_signal two_observers) = [(0, ''a''), (1, ''b'')]"
proof -
  have h1: "wf_signal (tok_signal two_observers)"
    by (simp add: two_observers_def wf_signal_def)
  have h2: "\<not> is_expired two_observers"
    by (simp add: two_observers_def is_expired_def)
  have h3: "(1::nat) \<le> 3" by simp
  note th = expire_fires_once [OF h1 h2 h3, of 0 "[]"]
  have v: "slots (tok_signal two_observers) = [(0, ''a''), (1, ''b'')]"
    by (simp add: two_observers_def)
  from h1 h2 h3 th v show ?thesis by blast
qed

text \<open>
  Claim C4. Registering a callback on an expired token fires nothing, and nothing
  fires afterwards either: whatever operations follow (further \<open>expire()\<close> calls,
  registrations, disconnections, the destructor), the list of firings stays as it was.
\<close>

theorem late_observer_never_fires:
  assumes "is_expired t"
  shows "snd (token_step (Observe_expiry f) t) = []
    \<and> snd (token_run ops (snd (observe_expiry f t), fs)) = fs
    \<and> snd (destroy_expiry_token (fst (token_run ops (snd (observe_expiry f t), fs)))) = []"
proof -
  have e: "tok_expired (snd (observe_expiry f t))"
    using assms by (simp add: is_expired_def observe_expiry_def connect_def)
  from token_run_expired [OF e, of ops fs]
  show ?thesis by (simp add: destroy_expiry_token_def expire_expired)
qed

theorem late_observer_never_fires_witness:
  "is_expired (fst (expire two_observers))
   \<and> snd (token_run [Expire, Is_expired, Observe_expiry ''d'', Expire]
        (snd (observe_expiry ''c'' (fst (expire two_observers))), [])) = []"
proof -
  have h: "is_expired (fst (expire two_observers))"
    by (simp add: is_expired_def expire_def two_observers_def)
  note th = late_observer_never_fires
    [OF h, of "''c''" "[Expire, Is_expired, Observe_expiry ''d'', Expire]" "[]"]
  from h th show ?thesis by blast
qed

text \<open>
  Claim C7, as amended. \<^verbatim>\<open>getter<T>\<close> declares no boolean conversion;
  \<^verbatim>\<open>getter_observer<T>\<close> does. For the observer that \<^verbatim>\<open>observer()\<close> returns, the
  conversion tells whether the getter has a function bound at that moment. On an
  observer whose conversion is false \<open>get()\<close> fails with \<^verbatim>\<open>bad_function_call\<close>, and so
  does \<open>get()\<close> on a getter whose observer converts to false: the caller who looks at
  the conversion of the observer first need not run into that failure.
\<close>

theorem getter_observer_bool_reports_binding:
  "Operator_bool \<notin> set getter_members
   \<and> Operator_bool \<in> set getter_observer_members
   \<and> getter_observer_bool (observer g) = (getter_fn g \<noteq> None)
   \<and> (\<not> getter_observer_bool ob \<longrightarrow> getter_observer_get ob env = Inl Bad_function_call)
   \<and> (\<not> getter_observer_bool (observer g) \<longrightarrow> getter_get g env = Inl Bad_function_call)"
  by (auto simp: getter_members_def getter_observer_members_def getter_observer_bool_def
      observer_def getter_observer_get_def getter_get_def split: option.splits)

theorem getter_observer_bool_reports_binding_witness:
  "\<not> getter_observer_bool (observer (getter_default :: (nat, nat, string) getter))
   \<and> getter_observer_get (observer (getter_default :: (nat, nat, string) getter)) 0
       = Inl Bad_function_call
   \<and> getter_get (getter_default :: (nat, nat, string) getter) 0 = Inl Bad_function_call"
proof -
  note th = getter_observer_bool_reports_binding
    [of "getter_default :: (nat, nat, string) getter"
        "observer (getter_default :: (nat, nat, string) getter)" 0]
  have h: "\<not> getter_observer_bool (observer (getter_default :: (nat, nat, string) getter))"
    by (simp add: getter_observer_bool_def observer_def getter_default_def)
  from h th show ?thesis by blast
qed

text \<open>
  Claim C7 as stated fails: it gives the boolean conversion to \<^verbatim>\<open>Getter<T>\<close>, and
  neither \<^verbatim>\<open>class getter\<close> nor \<^verbatim>\<open>class Getter\<close> of \<^verbatim>\<open>include/v.hpp\<close> declares one;
  the classes that do are the observers.
\<close>

theorem getter_bool_counterexample:
  "Operator_bool \<notin> set getter_members
   \<and> Operator_bool \<notin> set Getter_members
   \<and> Operator_bool \<in> set getter_observer_members
   \<and> Operator_bool \<in> set GetterObserver_members"
  by (simp add: getter_members_def Getter_members_def getter_observer_members_def
      GetterObserver_members_def)

section \<open>The attacher: the invariant is kept\<close>

lemma inv_wf: "world_inv w \<Longrightarrow> wf_signal (tok_signal (tokens w x))"
  by (simp add: world_inv_def)

lemma inv_closure:
  "world_inv w \<Longrightarrow> (c, On_expired y) \<in> set (slots (tok_signal (tokens w x))) \<Longrightarrow>
     y = x \<and> attached_objects w x = Some (x, c)"
  unfolding world_inv_def by blast

lemma inv_entry:
  "world_inv w \<Longrightarrow> attached_objects w k = Some (x, c) \<Longrightarrow>
     x = k \<and> c < next_cn (tok_signal (tokens w x))"
  unfolding world_inv_def by blast

lemma erase_events: "events (erase k w) = events w"
  by (simp add: erase_def scoped_cn_release_def split: option.splits)

lemma erase_attached: "attached_objects (erase k w) = (attached_objects w)(k := None)"
  by (simp add: erase_def scoped_cn_release_def split: option.splits)

lemma erase_expired: "tok_expired (tokens (erase k w) y) = tok_expired (tokens w y)"
  by (simp add: erase_def scoped_cn_release_def split: option.splits)

lemma erase_none:
  "attached_objects w k = None \<Longrightarrow> tokens (erase k w) = tokens w"
  by (simp add: erase_def scoped_cn_release_def)

lemma erase_some:
  "attached_objects w k = Some (x, c) \<Longrightarrow>
     tokens (erase k w) = (tokens w)(x := (tokens w x)\<lparr>tok_signal := disconnect c (tok_signal (tokens w x))\<rparr>)"
  by (simp add: erase_def scoped_cn_release_def)

lemma erase_tokens_other:
  assumes "world_inv w" and "y \<noteq> k"
  shows "tokens (erase k w) y = tokens w y"
proof (cases "attached_objects w k")
  case None
  then show ?thesis by (simp add: erase_none)
next
  case (Some h)
  obtain x c where h: "h = (x, c)" by (cases h)
  with Some inv_entry [OF assms(1)] have "x = k" by blast
  with Some h assms(2) show ?thesis by (simp add: erase_some)
qed

lemma erase_slots_self:
  assumes "world_inv w"
  shows "slots (tok_signal (tokens (erase k w) k)) =
     (case attached_objects w k of
        None \<Rightarrow> slots (tok_signal (tokens w k))
      | Some h \<Rightarrow> filter (\<lambda>e. fst e \<noteq> snd h) (slots (tok_signal (tokens w k))))"
proof (cases "attached_objects w k")
  case None
  then show ?thesis by (simp add: erase_none)
next
  case (Some h)
  obtain x c where h: "h = (x, c)" by (cases h)
  with Some inv_entry [OF assms(1)] have "x = k" by blast
  with Some h show ?thesis by (simp add: erase_some disconnect_def)
qed

lemma erase_next_cn: "next_cn (tok_signal (tokens (erase k w) y)) = next_cn (tok_signal (tokens w y))"
  by (simp add: erase_def scoped_cn_release_def disconnect_def split: option.splits)

lemma wf_signal_filter:
  "wf_signal s \<Longrightarrow> slots s' = filter P (slots s) \<Longrightarrow> next_cn s' = next_cn s \<Longrightarrow> wf_signal s'"
  by (auto simp: wf_signal_def list_all_iff distinct_map_filter)

lemma erase_no_closure_left:
  assumes "world_inv w"
  shows "(c, On_expired y) \<notin> set (slots (tok_signal (tokens (erase k w) k)))"
proof
  assume a: "(c, On_expired y) \<in> set (slots (tok_signal (tokens (erase k w) k)))"
  show False
  proof (cases "attached_objects w k")
    case None
    with a have "(c, On_expired y) \<in> set (slots (tok_signal (tokens w k)))"
      by (simp add: erase_none)
    from inv_closure [OF assms this] None show False by simp
  next
    case (Some h)
    with a have in_old: "(c, On_expired y) \<in> set (slots (tok_signal (tokens w k)))"
      and ne: "c \<noteq> snd h"
      by (simp_all add: erase_slots_self [OF assms])
    from inv_closure [OF assms in_old] Some ne show False by auto
  qed
qed

lemma world_inv_erase:
  assumes "world_inv w"
  shows "world_inv (erase k w)"
  unfolding world_inv_def
proof (intro conjI allI impI)
  fix x
  show "wf_signal (tok_signal (tokens (erase k w) x))"
  proof (cases "x = k")
    case True
    have "\<exists>P. slots (tok_signal (tokens (erase k w) k)) = filter P (slots (tok_signal (tokens w k)))"
    proof (cases "attached_objects w k")
      case None
      then have "slots (tok_signal (tokens (erase k w) k))
                   = filter (\<lambda>e. True) (slots (tok_signal (tokens w k)))"
        by (simp add: erase_slots_self [OF assms])
      then show ?thesis by blast
    next
      case (Some h)
      then have "slots (tok_signal (tokens (erase k w) k))
                   = filter (\<lambda>e. fst e \<noteq> snd h) (slots (tok_signal (tokens w k)))"
        by (simp add: erase_slots_self [OF assms])
      then show ?thesis by blast
    qed
    then obtain P where
      "slots (tok_signal (tokens (erase k w) k)) = filter P (slots (tok_signal (tokens w k)))" ..
    from wf_signal_filter [OF inv_wf [OF assms] this erase_next_cn] True show ?thesis by simp
  next
    case False
    with assms show ?thesis by (simp add: erase_tokens_other inv_wf)
  qed
next
  fix x c y
  assume a: "(c, On_expired y) \<in> set (slots (tok_signal (tokens (erase k w) x)))"
  have xk: "x \<noteq> k" using a erase_no_closure_left [OF assms] by blast
  with a have "(c, On_expired y) \<in> set (slots (tok_signal (tokens w x)))"
    by (simp add: erase_tokens_other [OF assms])
  from inv_closure [OF assms this] xk
  show "y = x" and "attached_objects (erase k w) x = Some (x, c)"
    by (simp_all add: erase_attached)
next
  fix j x c
  assume a: "attached_objects (erase k w) j = Some (x, c)"
  then have b: "attached_objects w j = Some (x, c)"
    by (auto simp: erase_attached split: if_splits)
  from inv_entry [OF assms b]
  show "x = j" and "c < next_cn (tok_signal (tokens (erase k w) x))"
    by (auto simp: erase_next_cn)
qed

lemma world_inv_events: "world_inv (w\<lparr>events := es\<rparr>) = world_inv w"
  by (simp add: world_inv_def)

lemma world_inv_new: "world_inv new_world"
  by (simp add: world_inv_def new_world_def expiry_token_def wf_signal_def empty_signal_def)

lemma world_inv_detach: "world_inv w \<Longrightarrow> world_inv (detach x w)"
  by (simp add: detach_def Let_def world_inv_events world_inv_erase)

lemma world_inv_observe:
  assumes "world_inv w"
  shows "world_inv (object_observe_expiry x n w)"
  unfolding world_inv_def
proof (intro conjI allI impI)
  fix y
  show "wf_signal (tok_signal (tokens (object_observe_expiry x n w) y))"
    using wf_connect [OF inv_wf [OF assms, of x], of "Observer n"] inv_wf [OF assms, of y]
    by (auto simp: object_observe_expiry_def observe_expiry_def split: prod.splits)
next
  fix y c z
  assume "(c, On_expired z) \<in> set (slots (tok_signal (tokens (object_observe_expiry x n w) y)))"
  then have "(c, On_expired z) \<in> set (slots (tok_signal (tokens w y)))"
    by (auto simp: object_observe_expiry_def observe_expiry_def connect_def split: if_splits)
  from inv_closure [OF assms this]
  show "z = y" and "attached_objects (object_observe_expiry x n w) y = Some (y, c)"
    by (auto simp: object_observe_expiry_def)
next
  fix k y c
  assume "attached_objects (object_observe_expiry x n w) k = Some (y, c)"
  then have "attached_objects w k = Some (y, c)" by (simp add: object_observe_expiry_def)
  from inv_entry [OF assms this]
  show "y = k" and "c < next_cn (tok_signal (tokens (object_observe_expiry x n w) y))"
    by (auto simp: object_observe_expiry_def observe_expiry_def connect_def)
qed

text \<open>What \<open>attach\<close> does to the parts of the world.\<close>

lemma attach_events: "events (attach x w) = events w @ [Attach_hook x]"
  by (simp add: attach_def Let_def scoped_cn_release_def observe_expiry_def connect_def
      split: option.splits prod.splits)

lemma attach_attached:
  "attached_objects (attach x w) = (attached_objects w)(x \<mapsto> (x, next_cn (tok_signal (tokens w x))))"
  by (simp add: attach_def Let_def scoped_cn_release_def observe_expiry_def connect_def
      split: option.splits prod.splits)

lemma attach_expired: "tok_expired (tokens (attach x w) y) = tok_expired (tokens w y)"
  by (simp add: attach_def Let_def scoped_cn_release_def observe_expiry_def connect_def
      split: option.splits prod.splits)

lemma attach_tokens_other:
  assumes "world_inv w" and "y \<noteq> x"
  shows "tokens (attach x w) y = tokens w y"
proof (cases "attached_objects w x")
  case None
  with assms(2) show ?thesis
    by (simp add: attach_def Let_def scoped_cn_release_def observe_expiry_def connect_def)
next
  case (Some h)
  obtain z c where h: "h = (z, c)" by (cases h)
  with Some inv_entry [OF assms(1)] have "z = x" by blast
  with Some h assms(2) show ?thesis
    by (simp add: attach_def Let_def scoped_cn_release_def observe_expiry_def connect_def)
qed

lemma attach_next_cn:
  assumes "world_inv w"
  shows "next_cn (tok_signal (tokens (attach x w) x)) = Suc (next_cn (tok_signal (tokens w x)))"
proof (cases "attached_objects w x")
  case None
  then show ?thesis
    by (simp add: attach_def Let_def scoped_cn_release_def observe_expiry_def connect_def)
next
  case (Some h)
  obtain z c where h: "h = (z, c)" by (cases h)
  with Some inv_entry [OF assms(1)] have "z = x" by blast
  with Some h show ?thesis
    by (simp add: attach_def Let_def scoped_cn_release_def observe_expiry_def connect_def
        disconnect_def)
qed

lemma attach_slots:
  assumes "world_inv w"
  shows "\<exists>P. slots (tok_signal (tokens (attach x w) x)) =
            filter P (slots (tok_signal (tokens w x)))
              @ [(next_cn (tok_signal (tokens w x)), On_expired x)]
          \<and> (\<forall>c y. (c, On_expired y) \<notin> set (filter P (slots (tok_signal (tokens w x)))))"
proof (cases "attached_objects w x")
  case None
  have "\<And>c y. (c, On_expired y) \<notin> set (filter (\<lambda>e. True) (slots (tok_signal (tokens w x))))"
  proof
    fix c y
    assume "(c, On_expired y) \<in> set (filter (\<lambda>e. True) (slots (tok_signal (tokens w x))))"
    then have "(c, On_expired y) \<in> set (slots (tok_signal (tokens w x)))" by simp
    from inv_closure [OF assms this] None show False by simp
  qed
  moreover from None have "slots (tok_signal (tokens (attach x w) x)) =
      filter (\<lambda>e. True) (slots (tok_signal (tokens w x)))
        @ [(next_cn (tok_signal (tokens w x)), On_expired x)]"
    by (simp add: attach_def Let_def scoped_cn_release_def observe_expiry_def connect_def)
  ultimately show ?thesis by blast
next
  case (Some h)
  obtain z c where h: "h = (z, c)" by (cases h)
  with Some inv_entry [OF assms(1)] have z: "z = x"
    and c: "c < next_cn (tok_signal (tokens w x))" by blast+
  have "\<And>c' y. (c', On_expired y) \<notin> set (filter (\<lambda>e. fst e \<noteq> c) (slots (tok_signal (tokens w x))))"
  proof
    fix c' y
    assume "(c', On_expired y) \<in> set (filter (\<lambda>e. fst e \<noteq> c) (slots (tok_signal (tokens w x))))"
    then have in_old: "(c', On_expired y) \<in> set (slots (tok_signal (tokens w x)))"
      and ne: "c' \<noteq> c" by simp_all
    from inv_closure [OF assms in_old] Some h ne show False by simp
  qed
  moreover from Some h z c have "slots (tok_signal (tokens (attach x w) x)) =
      filter (\<lambda>e. fst e \<noteq> c) (slots (tok_signal (tokens w x)))
        @ [(next_cn (tok_signal (tokens w x)), On_expired x)]"
    by (simp add: attach_def Let_def scoped_cn_release_def observe_expiry_def connect_def
        disconnect_def)
  ultimately show ?thesis by blast
qed

lemma world_inv_attach:
  assumes "world_inv w"
  shows "world_inv (attach x w)"
  unfolding world_inv_def
proof (intro conjI allI impI)
  fix y
  show "wf_signal (tok_signal (tokens (attach x w) y))"
  proof (cases "y = x")
    case True
    from attach_slots [OF assms, of x] obtain P where
      sl: "slots (tok_signal (tokens (attach x w) x)) =
            filter P (slots (tok_signal (tokens w x)))
              @ [(next_cn (tok_signal (tokens w x)), On_expired x)]" by blast
    from inv_wf [OF assms, of x] show ?thesis
      unfolding True wf_signal_def sl attach_next_cn [OF assms]
      by (auto simp: list_all_iff distinct_map_filter less_Suc_eq)
  next
    case False
    then show ?thesis by (simp add: attach_tokens_other [OF assms] inv_wf [OF assms])
  qed
next
  fix y c z
  assume a: "(c, On_expired z) \<in> set (slots (tok_signal (tokens (attach x w) y)))"
  have "z = y \<and> attached_objects (attach x w) y = Some (y, c)"
  proof (cases "y = x")
    case True
    from attach_slots [OF assms, of x] obtain P where
      sl: "slots (tok_signal (tokens (attach x w) x)) =
            filter P (slots (tok_signal (tokens w x)))
              @ [(next_cn (tok_signal (tokens w x)), On_expired x)]"
      and no: "\<forall>c y. (c, On_expired y) \<notin> set (filter P (slots (tok_signal (tokens w x))))"
      by blast
    from a True sl no have "c = next_cn (tok_signal (tokens w x))" and "z = x" by auto
    with True show ?thesis by (simp add: attach_attached)
  next
    case False
    with a have "(c, On_expired z) \<in> set (slots (tok_signal (tokens w y)))"
      by (simp add: attach_tokens_other [OF assms])
    from inv_closure [OF assms this] False show ?thesis by (simp add: attach_attached)
  qed
  then show "z = y" and "attached_objects (attach x w) y = Some (y, c)" by blast+
next
  fix k y c
  assume a: "attached_objects (attach x w) k = Some (y, c)"
  have "y = k \<and> c < next_cn (tok_signal (tokens (attach x w) y))"
  proof (cases "k = x")
    case True
    with a show ?thesis by (auto simp: attach_attached attach_next_cn [OF assms])
  next
    case False
    with a have "attached_objects w k = Some (y, c)" by (simp add: attach_attached)
    from inv_entry [OF assms this] False show ?thesis
      by (auto simp: attach_tokens_other [OF assms])
  qed
  then show "y = k" and "c < next_cn (tok_signal (tokens (attach x w) y))" by blast+
qed

lemma erase_events_update: "erase k (w\<lparr>events := es\<rparr>) = (erase k w)\<lparr>events := es\<rparr>"
  by (simp add: erase_def scoped_cn_release_def split: option.splits)

lemma fold_invoke:
  assumes "world_inv w" and "distinct (map fst ss)"
    and "set ss \<subseteq> set (slots (tok_signal (tokens w x)))"
  shows "fold (invoke x) ss w =
     (if \<exists>c y. (c, On_expired y) \<in> set ss then erase x w else w)
       \<lparr>events := events w @ map slot_event ss\<rparr>"
  using assms
proof (induction ss arbitrary: w)
  case Nil
  then show ?case by simp
next
  case (Cons e ss)
  obtain c f where e: "e = (c, f)" by (cases e)
  from Cons.prems(3) e have in_slots: "(c, f) \<in> set (slots (tok_signal (tokens w x)))" by simp
  then have conn: "connected c (tok_signal (tokens w x))"
    by (force simp: connected_def)
  from Cons.prems(2) have dist: "distinct (map fst ss)" and fresh: "c \<notin> fst ` set ss"
    by (simp_all add: e)
  show ?case
  proof (cases f)
    case (Observer n)
    let ?w = "w\<lparr>events := events w @ [Called n]\<rparr>"
    have step: "invoke x (c, Observer n) w = ?w" using conn by (simp add: invoke_def)
    have inv: "world_inv ?w" using Cons.prems(1) by (simp add: world_inv_events)
    have sub: "set ss \<subseteq> set (slots (tok_signal (tokens ?w x)))" using Cons.prems(3) by simp
    have ex: "(\<exists>c y. (c, On_expired y) \<in> set (e # ss)) = (\<exists>c y. (c, On_expired y) \<in> set ss)"
      by (auto simp: e Observer)
    show ?thesis
      unfolding ex
      by (simp add: step Cons.IH [OF inv dist sub] erase_events_update e Observer)
  next
    case (On_expired y)
    from inv_closure [OF Cons.prems(1)] in_slots On_expired
    have y: "y = x" and att: "attached_objects w x = Some (x, c)" by blast+
    let ?w = "detach x w"
    have step: "invoke x (c, On_expired x) w = ?w" using conn by (simp add: invoke_def)
    have inv: "world_inv ?w" using Cons.prems(1) by (rule world_inv_detach)
    have sl: "slots (tok_signal (tokens ?w x))
                = filter (\<lambda>e. fst e \<noteq> c) (slots (tok_signal (tokens w x)))"
      using erase_slots_self [OF Cons.prems(1), of x] att by (simp add: detach_def Let_def)
    have sub: "set ss \<subseteq> set (slots (tok_signal (tokens ?w x)))"
      unfolding sl using Cons.prems(3) fresh by auto
    have none: "\<not> (\<exists>c y. (c, On_expired y) \<in> set ss)"
    proof
      assume "\<exists>c y. (c, On_expired y) \<in> set ss"
      then obtain c' y' where m: "(c', On_expired y') \<in> set ss" by blast
      with Cons.prems(3) have "(c', On_expired y') \<in> set (slots (tok_signal (tokens w x)))"
        by auto
      from inv_closure [OF Cons.prems(1) this] att have "c' = c" by simp
      with m fresh show False by force
    qed
    have ex: "\<exists>c y. (c, On_expired y) \<in> set (e # ss)" using e On_expired by auto
    have ih: "fold (invoke x) ss ?w = ?w\<lparr>events := events ?w @ map slot_event ss\<rparr>"
      using Cons.IH [OF inv dist sub] none by simp
    have "fold (invoke x) (e # ss) w = fold (invoke x) ss ?w"
      by (simp add: e On_expired y step)
    also note ih
    also have "?w\<lparr>events := events ?w @ map slot_event ss\<rparr>
                 = (erase x w)\<lparr>events := events w @ map slot_event (e # ss)\<rparr>"
      by (simp add: detach_def Let_def erase_events e On_expired y)
    finally show ?thesis using ex by simp
  qed
qed

lemma world_inv_cong:
  "(\<And>y. tok_signal (tokens w' y) = tok_signal (tokens w y)) \<Longrightarrow>
     attached_objects w' = attached_objects w \<Longrightarrow> world_inv w' = world_inv w"
  by (simp add: world_inv_def)

lemma world_inv_flag:
  "world_inv (w\<lparr>tokens := (tokens w)(x := (tokens w x)\<lparr>tok_expired := b\<rparr>)\<rparr>) = world_inv w"
  by (rule world_inv_cong) simp_all

lemma object_expire_expired: "tok_expired (tokens w x) \<Longrightarrow> object_expire x w = w"
  by (simp add: object_expire_def expire_def)

lemma object_expire_alive:
  assumes "world_inv w" and "\<not> tok_expired (tokens w x)"
  shows "object_expire x w =
     (if \<exists>c y. (c, On_expired y) \<in> set (slots (tok_signal (tokens w x)))
      then erase x (w\<lparr>tokens := (tokens w)(x := (tokens w x)\<lparr>tok_expired := True\<rparr>)\<rparr>)
      else w\<lparr>tokens := (tokens w)(x := (tokens w x)\<lparr>tok_expired := True\<rparr>)\<rparr>)
       \<lparr>events := events w @ map slot_event (slots (tok_signal (tokens w x)))\<rparr>"
proof -
  let ?w = "w\<lparr>tokens := (tokens w)(x := (tokens w x)\<lparr>tok_expired := True\<rparr>)\<rparr>"
  let ?ss = "slots (tok_signal (tokens w x))"
  have inv: "world_inv ?w" using assms(1) by (simp only: world_inv_flag)
  have dist: "distinct (map fst ?ss)" using inv_wf [OF assms(1), of x] by (simp add: wf_signal_def)
  have sub: "set ?ss \<subseteq> set (slots (tok_signal (tokens ?w x)))" by simp
  have "object_expire x w = fold (invoke x) ?ss ?w"
    using assms(2) by (simp add: object_expire_def expire_def signal_call_def)
  also note fold_invoke [OF inv dist sub]
  finally show ?thesis by simp
qed

lemma world_inv_object_expire:
  assumes "world_inv w"
  shows "world_inv (object_expire x w)"
proof (cases "tok_expired (tokens w x)")
  case True
  with assms show ?thesis by (simp add: object_expire_expired)
next
  case False
  let ?w = "w\<lparr>tokens := (tokens w)(x := (tokens w x)\<lparr>tok_expired := True\<rparr>)\<rparr>"
  have inv: "world_inv ?w" using assms by (simp only: world_inv_flag)
  show ?thesis
    unfolding object_expire_alive [OF assms False]
    using inv by (simp add: world_inv_events world_inv_erase)
qed

lemma world_inv_step: "world_inv w \<Longrightarrow> world_inv (world_step op w)"
  by (cases op)
     (simp_all add: world_inv_attach world_inv_detach world_inv_object_expire world_inv_observe)

lemma world_inv_run: "world_inv w \<Longrightarrow> world_inv (world_run ops w)"
  unfolding world_run_def by (induction ops arbitrary: w) (simp_all add: world_inv_step)

section \<open>The attacher: attached objects until their expiry\<close>

lemma detach_hook_in_events:
  "Detach_hook x \<in> set (map slot_event ss) \<Longrightarrow> \<exists>c. (c, On_expired x) \<in> set ss"
proof (induction ss)
  case Nil
  then show ?case by simp
next
  case (Cons e ss)
  obtain c f where e: "e = (c, f)" by (cases e)
  show ?case
  proof (cases "slot_event e = Detach_hook x")
    case True
    with e have "f = On_expired x" by (cases f) simp_all
    with e show ?thesis by auto
  next
    case False
    with Cons show ?thesis by auto
  qed
qed

lemma object_expire_events:
  assumes "world_inv w"
  shows "events (object_expire y w) =
     events w @ (if tok_expired (tokens w y) then [] else map slot_event (slots (tok_signal (tokens w y))))"
proof (cases "tok_expired (tokens w y)")
  case True
  then show ?thesis by (simp add: object_expire_expired)
next
  case False
  then show ?thesis by (simp add: object_expire_alive [OF assms False])
qed

lemma step_events:
  assumes "world_inv w" and "op \<noteq> Object_expire x" and "op \<noteq> Detach x"
  shows "\<exists>es. events (world_step op w) = events w @ es \<and> Detach_hook x \<notin> set es"
proof (cases op)
  case (Attach y)
  then show ?thesis by (simp add: attach_events)
next
  case (Detach y)
  with assms(3) show ?thesis by (simp add: detach_def Let_def erase_events)
next
  case (Object_expire y)
  with assms(2) have ne: "y \<noteq> x" by simp
  have "Detach_hook x \<notin> set (map slot_event (slots (tok_signal (tokens w y))))"
  proof
    assume "Detach_hook x \<in> set (map slot_event (slots (tok_signal (tokens w y))))"
    from detach_hook_in_events [OF this] obtain c where
      "(c, On_expired x) \<in> set (slots (tok_signal (tokens w y)))" ..
    from inv_closure [OF assms(1) this] ne show False by simp
  qed
  then show ?thesis by (simp add: Object_expire object_expire_events [OF assms(1)])
next
  case (Object_observe y n)
  then show ?thesis by (simp add: object_observe_expiry_def)
qed

lemma object_expire_tokens_other:
  assumes "world_inv w" and "y \<noteq> x"
  shows "tokens (object_expire y w) x = tokens w x"
    and "attached_objects (object_expire y w) x = attached_objects w x"
proof -
  let ?w = "w\<lparr>tokens := (tokens w)(y := (tokens w y)\<lparr>tok_expired := True\<rparr>)\<rparr>"
  have inv: "world_inv ?w" using assms(1) by (simp only: world_inv_flag)
  have t: "tokens (erase y ?w) x = tokens w x"
    using erase_tokens_other [OF inv, of x y] assms(2) by simp
  show "tokens (object_expire y w) x = tokens w x"
  proof (cases "tok_expired (tokens w y)")
    case True
    then show ?thesis by (simp add: object_expire_expired)
  next
    case False
    show ?thesis using t assms(2) by (simp add: object_expire_alive [OF assms(1) False])
  qed
  show "attached_objects (object_expire y w) x = attached_objects w x"
  proof (cases "tok_expired (tokens w y)")
    case True
    then show ?thesis by (simp add: object_expire_expired)
  next
    case False
    show ?thesis using assms(2)
      by (simp add: object_expire_alive [OF assms(1) False] erase_attached)
  qed
qed

lemma attach_alive:
  assumes "world_inv w" and "\<not> tok_expired (tokens w x)"
  shows "attached_alive x (attach x w)"
proof -
  from attach_slots [OF assms(1), of x]
  have "(next_cn (tok_signal (tokens w x)), On_expired x)
          \<in> set (slots (tok_signal (tokens (attach x w) x)))" by auto
  with assms(2) show ?thesis
    by (simp add: attached_alive_def attach_expired attach_attached)
qed

lemma step_alive:
  assumes "world_inv w" and "attached_alive x w"
    and "op \<noteq> Object_expire x" and "op \<noteq> Detach x"
  shows "attached_alive x (world_step op w)"
proof (cases op)
  case (Attach y)
  show ?thesis
  proof (cases "y = x")
    case True
    from assms(2) have "\<not> tok_expired (tokens w x)" by (simp add: attached_alive_def)
    from attach_alive [OF assms(1) this] Attach True show ?thesis by simp
  next
    case False
    then have "x \<noteq> y" by simp
    with assms(2) Attach show ?thesis
      by (simp add: attached_alive_def attach_tokens_other [OF assms(1)] attach_attached)
  qed
next
  case (Detach y)
  with assms(4) have "x \<noteq> y" by auto
  with assms(2) Detach show ?thesis
    by (simp add: attached_alive_def detach_def Let_def erase_tokens_other [OF assms(1)]
        erase_attached)
next
  case (Object_expire y)
  with assms(3) have "y \<noteq> x" by simp
  from object_expire_tokens_other [OF assms(1) this] assms(2) Object_expire
  show ?thesis by (simp add: attached_alive_def)
next
  case (Object_observe y n)
  with assms(2) show ?thesis
    by (auto simp: attached_alive_def object_observe_expiry_def observe_expiry_def connect_def)
qed

lemma run_alive:
  assumes "world_inv w" and "attached_alive x w"
    and "Object_expire x \<notin> set ops" and "Detach x \<notin> set ops"
  shows "attached_alive x (world_run ops w)
    \<and> (\<exists>es. events (world_run ops w) = events w @ es \<and> Detach_hook x \<notin> set es)"
  using assms
proof (induction ops arbitrary: w)
  case Nil
  then show ?case by (simp add: world_run_def)
next
  case (Cons op ops)
  from Cons.prems have op: "op \<noteq> Object_expire x" "op \<noteq> Detach x"
    and ops: "Object_expire x \<notin> set ops" "Detach x \<notin> set ops" by auto
  let ?w = "world_step op w"
  have inv: "world_inv ?w" using Cons.prems(1) by (rule world_inv_step)
  have alive: "attached_alive x ?w" using Cons.prems(1,2) op by (rule step_alive)
  from step_events [OF Cons.prems(1) op] obtain es where
    es: "events ?w = events w @ es" "Detach_hook x \<notin> set es" by blast
  from Cons.IH [OF inv alive ops] obtain es' where
    a: "attached_alive x (world_run ops ?w)"
    and es': "events (world_run ops ?w) = events ?w @ es'" "Detach_hook x \<notin> set es'" by blast
  have r: "world_run (op # ops) w = world_run ops ?w" by (simp add: world_run_def)
  from es es' have "events (world_run ops ?w) = events w @ (es @ es')"
    and "Detach_hook x \<notin> set (es @ es')" by simp_all
  with a show ?case unfolding r by blast
qed

lemma count_closure_calls:
  assumes "distinct (map fst ss)" and "(c, On_expired x) \<in> set ss"
    and "\<forall>c' y. (c', On_expired y) \<in> set ss \<longrightarrow> c' = c"
  shows "count_list (map slot_event ss) (Detach_hook x) = 1"
  using assms
proof (induction ss)
  case Nil
  then show ?case by simp
next
  case (Cons e ss)
  obtain c' f where e: "e = (c', f)" by (cases e)
  show ?case
  proof (cases "(c, On_expired x) \<in> set ss")
    case True
    with Cons.prems(1) e have ne: "c' \<noteq> c" by force
    have "slot_event e \<noteq> Detach_hook x"
    proof
      assume "slot_event e = Detach_hook x"
      with e have "f = On_expired x" by (cases f) simp_all
      with Cons.prems(3) e ne show False by auto
    qed
    moreover have "count_list (map slot_event ss) (Detach_hook x) = 1"
    proof (rule Cons.IH [OF _ True])
      show "distinct (map fst ss)" using Cons.prems(1) by simp
      show "\<forall>c' y. (c', On_expired y) \<in> set ss \<longrightarrow> c' = c"
        using Cons.prems(3) by auto
    qed
    ultimately show ?thesis by simp
  next
    case False
    with Cons.prems(2) e have here: "c' = c" "f = On_expired x" by auto
    have "Detach_hook x \<notin> set (map slot_event ss)"
    proof
      assume "Detach_hook x \<in> set (map slot_event ss)"
      from detach_hook_in_events [OF this] obtain d where d: "(d, On_expired x) \<in> set ss" ..
      with Cons.prems(3) have "d = c" by auto
      with d False show False by simp
    qed
    then have "count_list (map slot_event ss) (Detach_hook x) = 0"
      by (simp add: count_list_0_iff)
    with e here show ?thesis by simp
  qed
qed

lemma object_expire_attached:
  assumes "world_inv w" and "attached_alive x w"
  shows "\<exists>es. events (object_expire x w) = events w @ es
           \<and> count_list es (Detach_hook x) = 1"
    and "attached_objects (object_expire x w) x = None"
proof -
  from assms(2) obtain c where alive: "\<not> tok_expired (tokens w x)"
    and att: "attached_objects w x = Some (x, c)"
    and slot: "(c, On_expired x) \<in> set (slots (tok_signal (tokens w x)))"
    by (auto simp: attached_alive_def)
  have dist: "distinct (map fst (slots (tok_signal (tokens w x))))"
    using inv_wf [OF assms(1), of x] by (simp add: wf_signal_def)
  have same: "\<forall>c' y. (c', On_expired y) \<in> set (slots (tok_signal (tokens w x))) \<longrightarrow> c' = c"
    using inv_closure [OF assms(1)] att by fastforce
  from count_closure_calls [OF dist slot same] alive
  show "\<exists>es. events (object_expire x w) = events w @ es \<and> count_list es (Detach_hook x) = 1"
    by (simp add: object_expire_events [OF assms(1)])
  from slot have "\<exists>c y. (c, On_expired y) \<in> set (slots (tok_signal (tokens w x)))" by blast
  then show "attached_objects (object_expire x w) x = None"
    by (simp add: object_expire_alive [OF assms(1) alive] erase_attached)
qed

section \<open>The attacher and the expired flag: the claims\<close>

lemma events_since_append: "events w' = events w @ es \<Longrightarrow> events_since w w' = es"
  by (simp add: events_since_def)

lemma invoke_expired: "tok_expired (tokens (invoke y e w) x) = tok_expired (tokens w x)"
  by (cases "snd e") (simp_all add: invoke_def detach_def Let_def erase_expired)

lemma fold_invoke_expired:
  "tok_expired (tokens (fold (invoke y) ss w) x) = tok_expired (tokens w x)"
  by (induction ss arbitrary: w) (simp_all add: invoke_expired)

lemma object_expire_keeps_expired:
  "tok_expired (tokens w x) \<Longrightarrow> tok_expired (tokens (object_expire y w) x)"
  by (simp add: object_expire_def expire_def fold_invoke_expired)

lemma world_step_keeps_expired:
  "tok_expired (tokens w x) \<Longrightarrow> tok_expired (tokens (world_step op w) x)"
  by (cases op)
     (auto simp: attach_expired detach_def Let_def erase_expired object_expire_keeps_expired
        object_observe_expiry_def observe_expiry_def connect_def)

lemma world_run_keeps_expired:
  "tok_expired (tokens w x) \<Longrightarrow> tok_expired (tokens (world_run ops w) x)"
  unfolding world_run_def
  by (induction ops arbitrary: w) (simp_all add: world_step_keeps_expired)

text \<open>
  Claim C10. Once \<open>is_expired()\<close> is true it stays true: after any sequence of
  \<open>expire\<close>, \<open>is_expired\<close>, \<open>observe_expiry\<close> and \<open>disconnect\<close> on the token, after its
  destructor's body, and, for the token of an object, after any sequence of attacher
  and object operations, including the calls of the closures and callbacks that an
  expiry dispatches.
\<close>

theorem is_expired_monotone:
  "(is_expired t \<longrightarrow> is_expired (fst (token_run ops (t, fs))))
   \<and> (is_expired t \<longrightarrow> is_expired (fst (destroy_expiry_token t)))
   \<and> (is_expired (tokens w x) \<longrightarrow> is_expired (tokens (world_run wops w) x))"
  by (simp add: is_expired_def token_run_expired world_run_keeps_expired
      destroy_expiry_token_def expire_expired)

theorem is_expired_monotone_witness:
  "is_expired (fst (expire two_observers))
   \<and> is_expired (fst (token_run [Observe_expiry ''c'', Expire, Disconnect 0, Is_expired]
        (fst (expire two_observers), [])))
   \<and> is_expired (tokens expired_world 7)
   \<and> is_expired (tokens (world_run [Attach 7, Object_expire 7, Object_observe 7 1, Detach 7]
        expired_world) 7)"
proof -
  have h1: "is_expired (fst (expire two_observers))"
    by (simp add: is_expired_def expire_def two_observers_def)
  have h2: "is_expired (tokens expired_world 7)"
    by (simp add: expired_world_def is_expired_def object_expire_def expire_def
        fold_invoke_expired attach_expired new_world_def expiry_token_def split: prod.splits)
  note th = is_expired_monotone
    [of "fst (expire two_observers)" "[Observe_expiry ''c'', Expire, Disconnect 0, Is_expired]" "[]"
        expired_world 7 "[Attach 7, Object_expire 7, Object_observe 7 1, Detach 7]"]
  from h1 h2 th show ?thesis by blast
qed

text \<open>
  Claim C8. In a world \<open>w\<close> that the operations have built, with the object \<open>x\<close> not
  yet expired: \<open>attacher << x\<close> calls the owner's attach hook once with \<open>x\<close> and nothing
  else. Whatever happens next, short of expiring or explicitly detaching \<open>x\<close>, calls no
  detach hook with \<open>x\<close> and keeps \<open>x\<close> in the map. When \<open>x\<close> then expires, the detach
  hook is called with \<open>x\<close> exactly once, and the key of \<open>x\<close> is no longer in the map.
\<close>

theorem attacher_round_trip:
  assumes "w = world_run pre new_world" and "\<not> is_expired (tokens w x)"
    and "Object_expire x \<notin> set mid" and "Detach x \<notin> set mid"
  shows "events (attach x w) = events w @ [Attach_hook x]
    \<and> count_list (events_since (attach x w) (world_run mid (attach x w))) (Detach_hook x) = 0
    \<and> attached_objects (world_run mid (attach x w)) x \<noteq> None
    \<and> count_list (events_since (world_run mid (attach x w))
          (object_expire x (world_run mid (attach x w)))) (Detach_hook x) = 1
    \<and> attached_objects (object_expire x (world_run mid (attach x w))) x = None"
proof -
  have inv: "world_inv w" unfolding assms(1) using world_inv_new by (rule world_inv_run)
  from assms(2) have alive: "\<not> tok_expired (tokens w x)" by (simp add: is_expired_def)
  let ?w1 = "attach x w"
  let ?w2 = "world_run mid ?w1"
  have inv1: "world_inv ?w1" using inv by (rule world_inv_attach)
  have alive1: "attached_alive x ?w1" using inv alive by (rule attach_alive)
  from run_alive [OF inv1 alive1 assms(3,4)] obtain es where
    alive2: "attached_alive x ?w2" and es: "events ?w2 = events ?w1 @ es"
    and no: "Detach_hook x \<notin> set es" by blast
  have inv2: "world_inv ?w2" using inv1 by (rule world_inv_run)
  from object_expire_attached [OF inv2 alive2] obtain es' where
    es': "events (object_expire x ?w2) = events ?w2 @ es'"
    and one: "count_list es' (Detach_hook x) = 1"
    and gone: "attached_objects (object_expire x ?w2) x = None" by blast
  from no have "count_list (events_since ?w1 ?w2) (Detach_hook x) = 0"
    by (simp add: events_since_append [OF es] count_list_0_iff)
  moreover from alive2 have "attached_objects ?w2 x \<noteq> None"
    by (auto simp: attached_alive_def)
  moreover from one have "count_list (events_since ?w2 (object_expire x ?w2)) (Detach_hook x) = 1"
    by (simp add: events_since_append [OF es'])
  ultimately show ?thesis using gone by (simp add: attach_events)
qed

theorem attacher_round_trip_witness:
  "busy_world = world_run [Object_observe 7 1, Attach 3] new_world
   \<and> \<not> is_expired (tokens busy_world 7)
   \<and> Object_expire 7 \<notin> set [Object_observe 7 2, Attach 7, Object_expire 3]
   \<and> Detach 7 \<notin> set [Object_observe 7 2, Attach 7, Object_expire 3]
   \<and> events (attach 7 busy_world) = events busy_world @ [Attach_hook 7]
   \<and> count_list (events_since (world_run [Object_observe 7 2, Attach 7, Object_expire 3] (attach 7 busy_world))
        (object_expire 7 (world_run [Object_observe 7 2, Attach 7, Object_expire 3] (attach 7 busy_world))))
        (Detach_hook 7) = 1
   \<and> attached_objects
        (object_expire 7 (world_run [Object_observe 7 2, Attach 7, Object_expire 3] (attach 7 busy_world))) 7
       = None"
proof -
  have h1: "busy_world = world_run [Object_observe 7 1, Attach 3] new_world"
    by (simp add: busy_world_def)
  have h2: "\<not> is_expired (tokens busy_world 7)"
    by (simp add: busy_world_def world_run_def is_expired_def attach_expired
        object_observe_expiry_def observe_expiry_def connect_def new_world_def expiry_token_def)
  have h3: "Object_expire 7 \<notin> set [Object_observe 7 2, Attach 7, Object_expire 3]" by simp
  have h4: "Detach 7 \<notin> set [Object_observe 7 2, Attach 7, Object_expire 3]" by simp
  note th = attacher_round_trip [OF h1 h2 h3 h4]
  from h1 h2 h3 h4 th show ?thesis by blast
qed

text \<open>All the events of that example, in the order in which they are recorded.\<close>

lemma busy_world_events:
  "events (object_expire 7 (world_run [Object_observe 7 2, Attach 7, Object_expire 3] (attach 7 busy_world)))
    = [Attach_hook 3, Attach_hook 7, Attach_hook 7, Detach_hook 3, Called 1, Called 2, Detach_hook 7]"
  by (simp add: busy_world_def world_run_def attach_def detach_def erase_def scoped_cn_release_def
      object_expire_def expire_def invoke_def connected_def signal_call_def disconnect_def
      object_observe_expiry_def observe_expiry_def connect_def new_world_def expiry_token_def
      empty_signal_def Let_def)

end
